theory Spec2Isabelle
  imports
    Complex_Main
    "HOL-Library.Char_ord"
    "HOL-Library.List_Lexorder"
    "HOL-Library.Log_Nat"
    "HOL-Library.Multiset"
begin

section \<open>ExpenseTracker: the tool surface of \<^verbatim>\<open>src/main.py\<close>\<close>

text \<open>
  The server keeps two SQLite tables, \<^verbatim>\<open>users\<close> and \<^verbatim>\<open>expenses\<close>, and exposes six
  tools on top of them. The embedding passes the database explicitly: every tool takes
  the database and returns its result together with the database it leaves behind.

  What lies outside \<^verbatim>\<open>main.py\<close> is taken as an input or written out from the
  documentation of the library that provides it:
  \<^item> \<^verbatim>\<open>secrets.token_hex\<close>, \<^verbatim>\<open>secrets.token_urlsafe\<close> and \<^verbatim>\<open>datetime.now\<close> are
    the fields of an \<open>ambient\<close> record, one draw per call;
  \<^item> \<^verbatim>\<open>hashlib.pbkdf2_hmac\<close> (behind \<^verbatim>\<open>_hash_password\<close>) is a parameter
    \<open>hash_password\<close>;
  \<^item> the SQL statements are read with SQLite's semantics: the \<^verbatim>\<open>UNIQUE\<close> and
    \<^verbatim>\<open>PRIMARY KEY\<close> constraints of the schema, \<^verbatim>\<open>AUTOINCREMENT\<close>, the binary collation
    of \<^verbatim>\<open>TEXT\<close>, and the built-in \<^verbatim>\<open>LOWER\<close>, which folds ASCII letters only;
  \<^item> a Python \<^verbatim>\<open>float\<close> and a value of a \<^verbatim>\<open>REAL\<close> column are IEEE doubles, added with
    rounding to nearest, ties to even; SQLite's \<^verbatim>\<open>SUM\<close> and Python's \<^verbatim>\<open>sum\<close> add one
    value after the other;
  \<^item> storage faults (I/O errors, a locked file) are not modelled.
\<close>

subsection \<open>Strings\<close>

text \<open>
  A Python \<^verbatim>\<open>str\<close> is a sequence of code points. A \<open>char\<close> stands for a code point
  below 256 (ASCII and the Latin-1 Supplement); on these, the order of code points is the
  order SQLite's binary collation gives the UTF-8 encodings, and it is the order of
  \<open>string\<close> used below.

  \<^verbatim>\<open>str.lower()\<close> folds every cased letter: below 256 these are A-Z and the
  Latin-1 capitals U+00C0-U+00DE without the multiplication sign U+00D7, each 32 below
  its small letter. SQLite's \<^verbatim>\<open>LOWER\<close> folds A-Z and nothing else.
\<close>

definition py_lower_char :: "char \<Rightarrow> char" where
  "py_lower_char c =
     (let n = (of_char c :: nat)
      in if (65 \<le> n \<and> n \<le> 90) \<or> (192 \<le> n \<and> n \<le> 222 \<and> n \<noteq> 215)
         then char_of (n + 32) else c)"

definition py_lower :: "string \<Rightarrow> string" where
  "py_lower s = map py_lower_char s"

definition sql_lower_char :: "char \<Rightarrow> char" where
  "sql_lower_char c =
     (let n = (of_char c :: nat)
      in if 65 \<le> n \<and> n \<le> 90 then char_of (n + 32) else c)"

definition sql_lower :: "string \<Rightarrow> string" where
  "sql_lower s = map sql_lower_char s"

text \<open>\<^verbatim>\<open>s.split(sep)\<close> for a separator of one character: never an empty list.\<close>

fun split_on :: "char \<Rightarrow> string \<Rightarrow> string list" where
  "split_on sep [] = [[]]"
| "split_on sep (c # cs) =
     (if c = sep then [] # split_on sep cs
      else (case split_on sep cs of
              [] \<Rightarrow> [[c]]
            | p # ps \<Rightarrow> (c # p) # ps))"

text \<open>
  The "basic email sanity check" of \<^verbatim>\<open>register_user\<close>, positively:
  \<^verbatim>\<open>"@" in email and "." in email.split("@")[-1]\<close>.
\<close>

definition email_format_ok :: "string \<Rightarrow> bool" where
  "email_format_ok em \<longleftrightarrow>
     CHR ''@'' \<in> set em \<and> CHR ''.'' \<in> set (last (split_on CHR ''@'' em))"

subsection \<open>Doubles\<close>

text \<open>
  An IEEE 754 binary64 value: a finite number, an infinity or NaN. \<open>Finite q\<close> stands for
  a double when \<open>q\<close> is one of the representable numbers, and \<open>round_double\<close> yields
  only such. The two zeros are one value: SQLite stores \<^verbatim>\<open>-0.0\<close> as \<^verbatim>\<open>0.0\<close>, and no
  sum of stored values is \<^verbatim>\<open>-0.0\<close>.
\<close>

datatype double = Finite rat | PosInf | NegInf | NaN

definition pow2 :: "int \<Rightarrow> rat" where
  "pow2 k = (if 0 \<le> k then 2 ^ nat k else 1 / 2 ^ nat (- k))"

text \<open>For \<open>a > 0\<close>: the \<open>e\<close> with \<open>pow2 e \<le> a < pow2 (e + 1)\<close>.\<close>

definition floor_log2 :: "rat \<Rightarrow> int" where
  "floor_log2 a =
     (let (n, d) = quotient_of a;
          k = bitlen n - bitlen d
      in if pow2 k \<le> a then k else k - 1)"

definition round_half_even :: "rat \<Rightarrow> int" where
  "round_half_even x =
     (let f = \<lfloor>x\<rfloor>; r = x - of_int f
      in if r < 1 / 2 then f
         else if 1 / 2 < r then f + 1
         else if even f then f else f + 1)"

text \<open>
  Rounding to the nearest double, ties to even. The result is a multiple \<open>m\<close> of
  \<open>pow2 p\<close> with \<open>m \<le> 2 ^ 53\<close>, where \<open>pow2 p\<close> is the spacing of the doubles around the
  number (\<open>pow2 (- 1074)\<close> for the subnormal ones). It overflows to an infinity when
  the rounded number reaches \<open>2 ^ 1024\<close>, that is when \<open>p > 971\<close>, or \<open>p = 971\<close> and
  \<open>m = 2 ^ 53\<close>. This is also the double a decimal literal of Python denotes.
\<close>

definition round_double :: "rat \<Rightarrow> double" where
  "round_double q =
     (if q = 0 then Finite 0
      else
        (let a = \<bar>q\<bar>;
             p = max (floor_log2 a - 52) (- 1074);
             m = round_half_even (a / pow2 p)
         in if 971 < p \<or> (p = 971 \<and> 2 ^ 53 \<le> m)
              then (if 0 < q then PosInf else NegInf)
            else Finite ((if 0 < q then 1 else - 1) * of_int m * pow2 p)))"

text \<open>Addition of doubles.\<close>

fun dadd :: "double \<Rightarrow> double \<Rightarrow> double" where
  "dadd NaN y = NaN"
| "dadd x NaN = NaN"
| "dadd PosInf NegInf = NaN"
| "dadd NegInf PosInf = NaN"
| "dadd PosInf y = PosInf"
| "dadd x PosInf = PosInf"
| "dadd NegInf y = NegInf"
| "dadd x NegInf = NegInf"
| "dadd (Finite x) (Finite y) = round_double (x + y)"

text \<open>The order of doubles; NaN, which no column holds, is put below all.\<close>

fun double_le :: "double \<Rightarrow> double \<Rightarrow> bool" where
  "double_le NaN y = True"
| "double_le x NaN = False"
| "double_le NegInf y = True"
| "double_le x NegInf = False"
| "double_le x PosInf = True"
| "double_le PosInf y = False"
| "double_le (Finite a) (Finite b) = (a \<le> b)"

definition is_finite :: "double \<Rightarrow> bool" where
  "is_finite x = (case x of Finite q \<Rightarrow> True | _ \<Rightarrow> False)"

text \<open>
  SQLite's \<^verbatim>\<open>SUM\<close> over the \<^verbatim>\<open>REAL\<close> values of a group, in the order the rows are
  visited: they are added to \<^verbatim>\<open>0.0\<close> one after the other, and a NaN result is returned
  as \<^verbatim>\<open>NULL\<close> (\<open>None\<close>). SQLite from 3.44 on carries a correction term along (Kahan and
  Babuska's summation), which can change the last bit of a sum of three or more values.
\<close>

definition sql_sum :: "double list \<Rightarrow> double option" where
  "sql_sum xs = (case foldl dadd (Finite 0) xs of NaN \<Rightarrow> None | t \<Rightarrow> Some t)"

text \<open>
  Python's \<^verbatim>\<open>sum\<close> over a list of floats and \<^verbatim>\<open>None\<close>s: it starts from the integer
  \<^verbatim>\<open>0\<close>, adds the floats one after the other, and raises \<^verbatim>\<open>TypeError\<close> at the first
  \<^verbatim>\<open>None\<close>; \<open>Inl\<close> is the text of that error, which names the type of the sum so far.
  CPython from 3.12 on compensates the rounding errors of a float sum (Neumaier's
  summation), which can change the last bit of a sum of three or more values.
\<close>

definition quoted :: "string \<Rightarrow> string" where
  "quoted s = CHR 0x27 # s @ [CHR 0x27]"

fun py_sum_from :: "bool \<Rightarrow> double \<Rightarrow> double option list \<Rightarrow> string + double" where
  "py_sum_from is_float acc [] = Inr acc"
| "py_sum_from is_float acc (None # xs) =
     Inl (''unsupported operand type(s) for +: '' @
          quoted (if is_float then ''float'' else ''int'') @ '' and '' @ quoted ''NoneType'')"
| "py_sum_from is_float acc (Some x # xs) = py_sum_from True (dadd acc x) xs"

definition py_sum :: "double option list \<Rightarrow> string + double" where
  "py_sum xs = py_sum_from False (Finite 0) xs"


subsection \<open>Tables\<close>

record user =
  user_id :: string
  api_key :: string
  email :: string
  name :: string
  password_hash :: string
  salt :: string
  registered_at :: string
  api_key_regen_at :: "string option"

text \<open>
  A row of \<^verbatim>\<open>expenses\<close>. The \<^verbatim>\<open>REAL NOT NULL\<close> column \<^verbatim>\<open>amount\<close> holds a double
  that is not NaN.
\<close>

record expense =
  e_id :: int
  e_user_id :: string
  e_date :: string
  e_amount :: double
  e_category :: string
  e_subcategory :: string
  e_note :: string

text \<open>
  The database: both tables in insertion order, and the counter that
  \<^verbatim>\<open>AUTOINCREMENT\<close> keeps in \<^verbatim>\<open>sqlite_sequence\<close> (the largest id ever given out).
\<close>

record db =
  users :: "user list"
  expenses :: "expense list"
  expenses_seq :: int

definition init_db :: db where
  "init_db = \<lparr>users = [], expenses = [], expenses_seq = 0\<rparr>"

record ambient =
  token_hex_8 :: string
  token_urlsafe_32 :: string
  token_hex_16 :: string
  now_iso :: string

subsection \<open>Results\<close>

datatype exn = ValueError string

record listed =
  r_id :: int
  r_date :: string
  r_amount :: double
  r_category :: string
  r_subcategory :: string
  r_note :: string

record grouped =
  g_category :: string
  total_amount :: "double option"
  g_count :: nat

text \<open>
  The dictionaries the tools return. \<open>Error m\<close> is \<^verbatim>\<open>{"status": "error", "message": m}\<close>;
  the other constructors carry the fields of a success dictionary that vary
  (\<open>Registered api_key user_id name email\<close>, \<open>Regenerated api_key user_id\<close>,
  \<open>Added id\<close>, \<open>Listing count expenses\<close>, \<open>Summary total_amount summary\<close>,
  \<open>Deleted expense_id\<close>).
\<close>

datatype response =
  Error string
| Registered string string string string
| Regenerated string string
| Added int
| Listing nat "listed list"
| Summary double "grouped list"
| Deleted int

text \<open>A tool call either raises (\<open>Inl\<close>) or returns a dictionary (\<open>Inr\<close>).\<close>

type_synonym outcome = "exn + response"

subsection \<open>Auth helpers\<close>

text \<open>\<^verbatim>\<open>_authenticate\<close>: the user id for the given API key, or raise.\<close>

definition authenticate :: "db \<Rightarrow> string \<Rightarrow> exn + string" where
  "authenticate s k =
     (if k = [] then Inl (ValueError ''API key is required'')
      else (case find (\<lambda>u. api_key u = k) (users s) of
              None \<Rightarrow> Inl (ValueError ''Invalid API key'')
            | Some u \<Rightarrow> Inr (user_id u)))"

subsection \<open>SQL statements that can fail\<close>

text \<open>
  \<^verbatim>\<open>INSERT INTO users\<close> under the three uniqueness constraints of the schema. SQLite
  reports the first violated constraint it meets; it tests \<^verbatim>\<open>email\<close>, then
  \<^verbatim>\<open>api_key\<close>, then \<^verbatim>\<open>user_id\<close>. \<open>Inl\<close> is the text of the \<^verbatim>\<open>IntegrityError\<close>.
\<close>

definition insert_user :: "db \<Rightarrow> user \<Rightarrow> string + db" where
  "insert_user s u =
     (if email u \<in> set (map email (users s))
        then Inl ''UNIQUE constraint failed: users.email''
      else if api_key u \<in> set (map api_key (users s))
        then Inl ''UNIQUE constraint failed: users.api_key''
      else if user_id u \<in> set (map user_id (users s))
        then Inl ''UNIQUE constraint failed: users.user_id''
      else Inr (s\<lparr>users := users s @ [u]\<rparr>))"

text \<open>\<^verbatim>\<open>UPDATE users SET api_key = ?, api_key_regen_at = ? WHERE user_id = ?\<close>.\<close>

definition update_api_key :: "db \<Rightarrow> string \<Rightarrow> string \<Rightarrow> string \<Rightarrow> string + db" where
  "update_api_key s uid k t =
     (if \<exists>u \<in> set (users s). user_id u \<noteq> uid \<and> api_key u = k
        then Inl ''UNIQUE constraint failed: users.api_key''
      else Inr (s\<lparr>users :=
                   map (\<lambda>u. if user_id u = uid
                             then u\<lparr>api_key := k, api_key_regen_at := Some t\<rparr>
                             else u) (users s)\<rparr>))"

text \<open>The largest \<^verbatim>\<open>INTEGER\<close> SQLite stores.\<close>

definition max_rowid :: int where
  "max_rowid = 9223372036854775807"

subsection \<open>Sorting, as \<^verbatim>\<open>ORDER BY\<close> does\<close>

fun insort_by :: "('a \<Rightarrow> 'a \<Rightarrow> bool) \<Rightarrow> 'a \<Rightarrow> 'a list \<Rightarrow> 'a list" where
  "insort_by le x [] = [x]"
| "insort_by le x (y # ys) = (if le x y then x # y # ys else y # insort_by le x ys)"

definition sort_by :: "('a \<Rightarrow> 'a \<Rightarrow> bool) \<Rightarrow> 'a list \<Rightarrow> 'a list" where
  "sort_by le xs = foldr (insort_by le) xs []"

text \<open>\<^verbatim>\<open>ORDER BY date DESC, id DESC\<close>: \<open>a\<close> may stand before \<open>b\<close>.\<close>

definition date_id_desc :: "expense \<Rightarrow> expense \<Rightarrow> bool" where
  "date_id_desc a b \<longleftrightarrow>
     e_date b < e_date a \<or> (e_date a = e_date b \<and> e_id b \<le> e_id a)"

text \<open>
  The order in which the index on \<^verbatim>\<open>(user_id, date)\<close> yields the rows of one user:
  by date, then by id, ascending.
\<close>

definition date_id_asc :: "expense \<Rightarrow> expense \<Rightarrow> bool" where
  "date_id_asc a b \<longleftrightarrow>
     e_date a < e_date b \<or> (e_date a = e_date b \<and> e_id a \<le> e_id b)"

text \<open>\<^verbatim>\<open>ORDER BY total_amount DESC\<close>; \<^verbatim>\<open>NULL\<close> is below every number.\<close>

fun sql_le :: "double option \<Rightarrow> double option \<Rightarrow> bool" where
  "sql_le None y = True"
| "sql_le (Some x) None = False"
| "sql_le (Some x) (Some y) = double_le x y"

definition total_desc :: "grouped \<Rightarrow> grouped \<Rightarrow> bool" where
  "total_desc a b \<longleftrightarrow> sql_le (total_amount b) (total_amount a)"

subsection \<open>Tools\<close>

definition register_user ::
  "(string \<Rightarrow> string \<Rightarrow> string) \<Rightarrow> ambient \<Rightarrow> db \<Rightarrow>
   string \<Rightarrow> string \<Rightarrow> string \<Rightarrow> outcome \<times> db" where
  "register_user hash_password amb s em nm password =
     (if CHR ''@'' \<notin> set em \<or> CHR ''.'' \<notin> set (last (split_on CHR ''@'' em))
        then (Inr (Error ''Invalid email format.''), s)
      else if \<exists>u \<in> set (users s). sql_lower (email u) = sql_lower em
        then (Inr (Error (''This email is already registered. '' @
                          ''Use regenerate_api_key if you lost your key.'')), s)
      else
        (let uid = ''user_'' @ token_hex_8 amb;
             key = token_urlsafe_32 amb;
             slt = token_hex_16 amb;
             pw_hash = hash_password password slt;
             now = now_iso amb
         in case insert_user s
                   \<lparr>user_id = uid, api_key = key, email = py_lower em, name = nm,
                    password_hash = pw_hash, salt = slt, registered_at = now,
                    api_key_regen_at = None\<rparr> of
              Inl e \<Rightarrow> (Inr (Error (''Registration error: '' @ e)), s)
            | Inr s' \<Rightarrow> (Inr (Registered key uid nm (py_lower em)), s')))"

definition regenerate_api_key ::
  "(string \<Rightarrow> string \<Rightarrow> string) \<Rightarrow> ambient \<Rightarrow> db \<Rightarrow>
   string \<Rightarrow> string \<Rightarrow> outcome \<times> db" where
  "regenerate_api_key hash_password amb s em password =
     (case find (\<lambda>u. sql_lower (email u) = sql_lower em) (users s) of
        None \<Rightarrow> (Inr (Error ''Email not found.''), s)
      | Some row \<Rightarrow>
          if hash_password password (salt row) \<noteq> password_hash row
            then (Inr (Error ''Incorrect password.''), s)
          else
            (let new_key = token_urlsafe_32 amb
             in case update_api_key s (user_id row) new_key (now_iso amb) of
                  Inl e \<Rightarrow> (Inr (Error (''Error: '' @ e)), s)
                | Inr s' \<Rightarrow> (Inr (Regenerated new_key (user_id row)), s')))"

text \<open>
  \<^verbatim>\<open>add_expense\<close>. The id is one more than the largest ever given out; SQLite refuses
  the insert (\<^verbatim>\<open>SQLITE_FULL\<close>) once the largest possible id has been used. The
  amount is a Python \<^verbatim>\<open>float\<close>, so it arrives as a double; SQLite binds NaN as
  \<^verbatim>\<open>NULL\<close>, which the \<^verbatim>\<open>NOT NULL\<close> constraint on \<^verbatim>\<open>amount\<close> refuses, and stores
  every other double as it is.
\<close>

definition add_expense ::
  "db \<Rightarrow> string \<Rightarrow> double \<Rightarrow> string \<Rightarrow> string \<Rightarrow> string \<Rightarrow> string \<Rightarrow> outcome \<times> db" where
  "add_expense s date amount category key subcategory note =
     (case authenticate s key of
        Inl e \<Rightarrow> (Inl e, s)
      | Inr uid \<Rightarrow>
          if max_rowid \<le> expenses_seq s
            then (Inr (Error ''Database error: database or disk is full''), s)
          else if amount = NaN
            then (Inr (Error ''Database error: NOT NULL constraint failed: expenses.amount''), s)
          else
            (let i = expenses_seq s + 1
             in (Inr (Added i),
                 s\<lparr>expenses := expenses s @
                      [\<lparr>e_id = i, e_user_id = uid, e_date = date, e_amount = amount,
                        e_category = category, e_subcategory = subcategory,
                        e_note = note\<rparr>],
                   expenses_seq := i\<rparr>)))"

text \<open>The columns \<^verbatim>\<open>list_expenses\<close> selects.\<close>

definition listed_of :: "expense \<Rightarrow> listed" where
  "listed_of e =
     \<lparr>r_id = e_id e, r_date = e_date e, r_amount = e_amount e,
      r_category = e_category e, r_subcategory = e_subcategory e, r_note = e_note e\<rparr>"

text \<open>\<^verbatim>\<open>WHERE user_id = ? AND date BETWEEN ? AND ?\<close>.\<close>

definition in_range :: "string \<Rightarrow> string \<Rightarrow> string \<Rightarrow> expense \<Rightarrow> bool" where
  "in_range uid start_date end_date e \<longleftrightarrow>
     e_user_id e = uid \<and> start_date \<le> e_date e \<and> e_date e \<le> end_date"

definition list_expenses :: "db \<Rightarrow> string \<Rightarrow> string \<Rightarrow> string \<Rightarrow> outcome \<times> db" where
  "list_expenses s start_date end_date key =
     (case authenticate s key of
        Inl e \<Rightarrow> (Inl e, s)
      | Inr uid \<Rightarrow>
          (let rows = map listed_of
                        (sort_by date_id_desc
                           (filter (in_range uid start_date end_date) (expenses s)))
           in (Inr (Listing (length rows) rows), s)))"

text \<open>
  \<^verbatim>\<open>summarize\<close>. \<^verbatim>\<open>if category:\<close> holds for a string that is present and not empty.
  The query reads the user's rows in the order of the index. \<^verbatim>\<open>GROUP BY category\<close>
  yields one row per category, with the \<^verbatim>\<open>SUM\<close> and the number of its rows, in the order
  of the categories. \<^verbatim>\<open>ORDER BY total_amount DESC\<close> then sorts the groups; SQL leaves the
  order of groups with equal totals open, and SQLite returns the later category first.
  The total is Python's \<^verbatim>\<open>sum\<close> over the groups, inside the \<^verbatim>\<open>try\<close>.
\<close>

definition truthy :: "string option \<Rightarrow> bool" where
  "truthy category = (case category of None \<Rightarrow> False | Some c \<Rightarrow> c \<noteq> [])"

definition group_of :: "expense list \<Rightarrow> string \<Rightarrow> grouped" where
  "group_of rows c =
     \<lparr>g_category = c,
      total_amount = sql_sum (map e_amount (filter (\<lambda>e. e_category e = c) rows)),
      g_count = length (filter (\<lambda>e. e_category e = c) rows)\<rparr>"

definition group_by_category :: "expense list \<Rightarrow> grouped list" where
  "group_by_category rows =
     map (group_of rows) (sort_by (\<le>) (remdups (map e_category rows)))"

definition summarize ::
  "db \<Rightarrow> string \<Rightarrow> string \<Rightarrow> string \<Rightarrow> string option \<Rightarrow> outcome \<times> db" where
  "summarize s start_date end_date key category =
     (case authenticate s key of
        Inl e \<Rightarrow> (Inl e, s)
      | Inr uid \<Rightarrow>
          (let rows = sort_by date_id_asc
                        (filter (\<lambda>e. in_range uid start_date end_date e \<and>
                                     (truthy category \<longrightarrow> Some (e_category e) = category))
                           (expenses s));
               summary = sort_by total_desc (rev (group_by_category rows))
           in case py_sum (map total_amount summary) of
                Inl m \<Rightarrow> (Inr (Error (''Error: '' @ m)), s)
              | Inr sum_total \<Rightarrow> (Inr (Summary sum_total summary), s)))"

text \<open>
  \<^verbatim>\<open>delete_expense\<close>. Binding a Python \<^verbatim>\<open>int\<close> outside SQLite's 64-bit range raises
  \<^verbatim>\<open>OverflowError\<close> inside the \<^verbatim>\<open>try\<close>.
\<close>

definition delete_expense :: "db \<Rightarrow> int \<Rightarrow> string \<Rightarrow> outcome \<times> db" where
  "delete_expense s expense_id key =
     (case authenticate s key of
        Inl e \<Rightarrow> (Inl e, s)
      | Inr uid \<Rightarrow>
          if expense_id < - max_rowid - 1 \<or> max_rowid < expense_id
            then (Inr (Error ''Error: Python int too large to convert to SQLite INTEGER''), s)
          else if \<not> (\<exists>e \<in> set (expenses s). e_id e = expense_id \<and> e_user_id e = uid)
            then (Inr (Error ''Expense not found or not yours.''), s)
          else (Inr (Deleted expense_id),
                s\<lparr>expenses :=
                    filter (\<lambda>e. \<not> (e_id e = expense_id \<and> e_user_id e = uid))
                      (expenses s)\<rparr>))"

subsection \<open>What the schema and the tools maintain\<close>

text \<open>
  The constraints of the schema (\<^verbatim>\<open>PRIMARY KEY\<close> and \<^verbatim>\<open>UNIQUE\<close> on \<^verbatim>\<open>users\<close>,
  \<^verbatim>\<open>PRIMARY KEY AUTOINCREMENT\<close> on \<^verbatim>\<open>expenses\<close>), and that no stored API key is
  empty. \<open>init_db\<close> satisfies it and every tool preserves it, so it holds in every
  reachable database (lemma \<open>reachable_db_inv\<close> below).
\<close>

definition db_inv :: "db \<Rightarrow> bool" where
  "db_inv s \<longleftrightarrow>
     distinct (map user_id (users s)) \<and>
     distinct (map api_key (users s)) \<and>
     distinct (map email (users s)) \<and>
     (\<forall>u \<in> set (users s). api_key u \<noteq> []) \<and>
     distinct (map e_id (expenses s)) \<and>
     (\<forall>e \<in> set (expenses s). 0 < e_id e \<and> e_id e \<le> expenses_seq s) \<and>
     0 \<le> expenses_seq s \<and> expenses_seq s \<le> max_rowid"

text \<open>
  The lengths of the tokens \<^verbatim>\<open>secrets\<close> returns: \<^verbatim>\<open>token_hex(n)\<close> has \<open>2 n\<close>
  characters, \<^verbatim>\<open>token_urlsafe(32)\<close> has 43.
\<close>

definition ambient_ok :: "ambient \<Rightarrow> bool" where
  "ambient_ok amb \<longleftrightarrow>
     length (token_hex_8 amb) = 16 \<and>
     length (token_urlsafe_32 amb) = 43 \<and>
     length (token_hex_16 amb) = 32"

text \<open>
  The databases the server can be in: the empty one, and what the tools that write leave
  behind (\<open>list_expenses\<close> and \<open>summarize\<close> leave the database as it was).
\<close>

inductive reachable :: "db \<Rightarrow> bool" where
  start: "reachable init_db"
| registered: "reachable s \<Longrightarrow> ambient_ok amb \<Longrightarrow>
     reachable (snd (register_user hash_password amb s em nm password))"
| regenerated: "reachable s \<Longrightarrow> ambient_ok amb \<Longrightarrow>
     reachable (snd (regenerate_api_key hash_password amb s em password))"
| added: "reachable s \<Longrightarrow>
     reachable (snd (add_expense s date amount category key subcategory note))"
| deleted: "reachable s \<Longrightarrow> reachable (snd (delete_expense s expense_id key))"

subsection \<open>The address shape, in the words of the specification\<close>

text \<open>
  Section 4.1 of the specification asks of an email "the structural shape of an address":
  a local part, which the claim wants non-empty, one \<^verbatim>\<open>@\<close>, and a domain with a dot.
  This definition follows those words, not the code; \<open>email_format_ok\<close> is the code's check.
\<close>

definition spec_address_shape :: "string \<Rightarrow> bool" where
  "spec_address_shape em \<longleftrightarrow>
     (case split_on CHR ''@'' em of
        [local_part, domain] \<Rightarrow> local_part \<noteq> [] \<and> CHR ''.'' \<in> set domain
      | _ \<Rightarrow> False)"

subsection \<open>A concrete run\<close>

text \<open>
  Two accounts and three expenses, built by the tools themselves from the empty database.
  \<open>example_hash\<close> stands in for PBKDF2 in this run; no theorem depends on it.
\<close>

definition example_hash :: "string \<Rightarrow> string \<Rightarrow> string" where
  "example_hash password slt = slt @ password"

definition key_a :: string where
  "key_a = ''Zm9vYmFyYmF6cXV4Zm9vYmFyYmF6cXV4Zm9vYmFyYmF''"

definition key_b :: string where
  "key_b = ''cXV1eGJhemJhcmZvb3F1dXhiYXpiYXJmb29xdXV4YmF''"

definition key_c :: string where
  "key_c = ''bm90LXRoZS1zYW1lLWtleS1hcy1iZWZvcmUtcm90YXR''"

definition amb_a :: ambient where
  "amb_a = \<lparr>token_hex_8 = ''00112233aabbccdd'', token_urlsafe_32 = key_a,
            token_hex_16 = ''000102030405060708090a0b0c0d0e0f'',
            now_iso = ''2024-01-01T09:00:00''\<rparr>"

definition amb_b :: ambient where
  "amb_b = \<lparr>token_hex_8 = ''8899aabbccddeeff'', token_urlsafe_32 = key_b,
            token_hex_16 = ''101112131415161718191a1b1c1d1e1f'',
            now_iso = ''2024-01-02T09:00:00''\<rparr>"

definition amb_c :: ambient where
  "amb_c = \<lparr>token_hex_8 = ''0123456789abcdef'', token_urlsafe_32 = key_c,
            token_hex_16 = ''202122232425262728292a2b2c2d2e2f'',
            now_iso = ''2024-02-01T09:00:00''\<rparr>"


definition db_alice :: db where
  "db_alice = snd (register_user example_hash amb_a init_db
                     ''Alice@Example.com'' ''Alice'' ''pw-a'')"

definition db_accounts :: db where
  "db_accounts = snd (register_user example_hash amb_b db_alice
                        ''bob@example.com'' ''Bob'' ''pw-b'')"

definition db_run :: db where
  "db_run =
     snd (add_expense
       (snd (add_expense
          (snd (add_expense db_accounts
                  ''2024-01-05'' (Finite 45.5) ''Food & Dining'' key_a [] []))
          ''2024-01-10'' (Finite 12) ''Transportation'' key_a [] []))
       ''2024-01-07'' (Finite 3) [] key_b [] ''refund'')"

definition alice_row :: user where
  "alice_row =
     \<lparr>user_id = ''user_00112233aabbccdd'', api_key = key_a,
      email = ''alice@example.com'', name = ''Alice'',
      password_hash = ''000102030405060708090a0b0c0d0e0fpw-a'',
      salt = ''000102030405060708090a0b0c0d0e0f'',
      registered_at = ''2024-01-01T09:00:00'', api_key_regen_at = None\<rparr>"

definition bob_row :: user where
  "bob_row =
     \<lparr>user_id = ''user_8899aabbccddeeff'', api_key = key_b,
      email = ''bob@example.com'', name = ''Bob'',
      password_hash = ''101112131415161718191a1b1c1d1e1fpw-b'',
      salt = ''101112131415161718191a1b1c1d1e1f'',
      registered_at = ''2024-01-02T09:00:00'', api_key_regen_at = None\<rparr>"

definition expense_1 :: expense where
  "expense_1 =
     \<lparr>e_id = 1, e_user_id = ''user_00112233aabbccdd'', e_date = ''2024-01-05'',
      e_amount = Finite 45.5, e_category = ''Food & Dining'', e_subcategory = [], e_note = []\<rparr>"

definition expense_2 :: expense where
  "expense_2 =
     \<lparr>e_id = 2, e_user_id = ''user_00112233aabbccdd'', e_date = ''2024-01-10'',
      e_amount = Finite 12, e_category = ''Transportation'', e_subcategory = [], e_note = []\<rparr>"

definition expense_3 :: expense where
  "expense_3 =
     \<lparr>e_id = 3, e_user_id = ''user_8899aabbccddeeff'', e_date = ''2024-01-07'',
      e_amount = Finite 3, e_category = [], e_subcategory = [], e_note = ''refund''\<rparr>"

text \<open>
  A second run: Alice alone, with 0.1 and 0.2 in category x and 0.3 in category y, the
  amounts being the doubles these literals denote.
\<close>

definition db_sums :: db where
  "db_sums =
     snd (add_expense
       (snd (add_expense
          (snd (add_expense db_alice ''2024-01-01'' (round_double (1 / 10)) ''x'' key_a [] []))
          ''2024-01-02'' (round_double (2 / 10)) ''x'' key_a [] []))
       ''2024-01-03'' (round_double (3 / 10)) ''y'' key_a [] [])"

definition tenth_1 :: double where
  "tenth_1 = Finite (3602879701896397 / 36028797018963968)"

definition tenth_2 :: double where
  "tenth_2 = Finite (3602879701896397 / 18014398509481984)"

definition tenth_3 :: double where
  "tenth_3 = Finite (5404319552844595 / 18014398509481984)"

definition sum_row :: "int \<Rightarrow> string \<Rightarrow> double \<Rightarrow> string \<Rightarrow> expense" where
  "sum_row i date amount category =
     \<lparr>e_id = i, e_user_id = ''user_00112233aabbccdd'', e_date = date, e_amount = amount,
      e_category = category, e_subcategory = [], e_note = []\<rparr>"

definition sums_listing :: "listed list" where
  "sums_listing =
     [listed_of (sum_row 3 ''2024-01-03'' tenth_3 ''y''),
      listed_of (sum_row 2 ''2024-01-02'' tenth_2 ''x''),
      listed_of (sum_row 1 ''2024-01-01'' tenth_1 ''x'')]"


section \<open>Lemmas\<close>

subsection \<open>Sorting\<close>

lemma mset_insort_by: "mset (insort_by le x xs) = add_mset x (mset xs)"
  by (induction xs) simp_all

lemma mset_sort_by: "mset (sort_by le xs) = mset xs"
  by (induction xs) (simp_all add: sort_by_def mset_insort_by)

lemma set_sort_by: "set (sort_by le xs) = set xs"
  using mset_sort_by [of le xs] by (metis set_mset_mset)

lemma length_sort_by: "length (sort_by le xs) = length xs"
  using mset_sort_by [of le xs] by (metis size_mset)

lemma sorted_insort_by:
  assumes total: "\<And>a b. le a b \<or> le b a"
    and trans: "\<And>a b c. le a b \<Longrightarrow> le b c \<Longrightarrow> le a c"
  shows "sorted_wrt le xs \<Longrightarrow> sorted_wrt le (insort_by le x xs)"
proof (induction xs)
  case Nil
  then show ?case by simp
next
  case (Cons y ys)
  show ?case
  proof (cases "le x y")
    case True
    with Cons.prems trans show ?thesis by auto
  next
    case False
    with total have yx: "le y x" by blast
    have "set (insort_by le x ys) = insert x (set ys)"
      using mset_insort_by [of le x ys] by (metis set_mset_add_mset_insert set_mset_mset)
    with Cons yx False show ?thesis by auto
  qed
qed

lemma sorted_sort_by:
  assumes total: "\<And>a b. le a b \<or> le b a"
    and trans: "\<And>a b c. le a b \<Longrightarrow> le b c \<Longrightarrow> le a c"
  shows "sorted_wrt le (sort_by le xs)"
proof (induction xs)
  case Nil
  then show ?case by (simp add: sort_by_def)
next
  case (Cons x xs)
  have "sort_by le (x # xs) = insort_by le x (sort_by le xs)"
    by (simp add: sort_by_def)
  with Cons sorted_insort_by [of le, OF total trans] show ?case by simp
qed

lemma date_id_desc_total: "date_id_desc a b \<or> date_id_desc b a"
  by (auto simp: date_id_desc_def)

lemma date_id_desc_trans: "date_id_desc a b \<Longrightarrow> date_id_desc b c \<Longrightarrow> date_id_desc a c"
  by (auto simp: date_id_desc_def)

lemma sorted_wrt_distinct_key:
  "sorted_wrt P xs \<Longrightarrow> distinct (map f xs) \<Longrightarrow> sorted_wrt (\<lambda>a b. P a b \<and> f a \<noteq> f b) xs"
  by (induction xs) auto

subsection \<open>Looking a row up\<close>

lemma find_SomeD: "find P xs = Some x \<Longrightarrow> P x \<and> x \<in> set xs"
  by (induction xs) (auto split: if_splits)

lemma find_ex: "x \<in> set xs \<Longrightarrow> P x \<Longrightarrow> \<exists>y. find P xs = Some y"
  by (induction xs) auto

lemma distinct_map_eq:
  "distinct (map f xs) \<Longrightarrow> x \<in> set xs \<Longrightarrow> y \<in> set xs \<Longrightarrow> f x = f y \<Longrightarrow> x = y"
  by (meson distinct_map inj_on_eq_iff)

lemma authenticate_InrD:
  "authenticate s k = Inr uid \<Longrightarrow>
     k \<noteq> [] \<and> (\<exists>u \<in> set (users s). api_key u = k \<and> user_id u = uid)"
  by (auto simp: authenticate_def split: if_splits option.splits dest: find_SomeD)

lemma authenticate_row:
  assumes "distinct (map api_key (users s))" "u \<in> set (users s)" "api_key u \<noteq> []"
  shows "authenticate s (api_key u) = Inr (user_id u)"
proof -
  obtain y where y: "find (\<lambda>x. api_key x = api_key u) (users s) = Some y"
    using find_ex [OF assms(2), of "\<lambda>x. api_key x = api_key u"] by auto
  then have "api_key y = api_key u \<and> y \<in> set (users s)"
    by (auto dest: find_SomeD)
  with assms have "y = u" by (auto dest: distinct_map_eq)
  with y assms(3) show ?thesis by (simp add: authenticate_def)
qed

lemma authenticate_unknown:
  "k \<noteq> [] \<Longrightarrow> k \<notin> api_key ` set (users s) \<Longrightarrow>
     authenticate s k = Inl (ValueError ''Invalid API key'')"
  by (auto simp: authenticate_def find_None_iff split: option.splits)

subsection \<open>The invariant\<close>

lemma db_inv_init: "db_inv init_db"
  by (simp add: db_inv_def init_db_def max_rowid_def)

lemma db_inv_insert_user:
  "db_inv s \<Longrightarrow> api_key u \<noteq> [] \<Longrightarrow> insert_user s u = Inr s' \<Longrightarrow> db_inv s'"
  by (auto simp: db_inv_def insert_user_def split: if_splits)

lemma db_inv_register_user:
  assumes "db_inv s" "ambient_ok amb"
  shows "db_inv (snd (register_user hash_password amb s em nm password))"
proof -
  have "token_urlsafe_32 amb \<noteq> []"
    using assms(2) by (auto simp: ambient_ok_def)
  then have "db_inv s'" if "insert_user s (u\<lparr>api_key := token_urlsafe_32 amb\<rparr>) = Inr s'" for u s'
    using that assms(1) db_inv_insert_user [of s "u\<lparr>api_key := token_urlsafe_32 amb\<rparr>" s'] by simp
  from this [of "\<lparr>user_id = ''user_'' @ token_hex_8 amb, api_key = token_urlsafe_32 amb,
                  email = py_lower em, name = nm,
                  password_hash = hash_password password (token_hex_16 amb),
                  salt = token_hex_16 amb, registered_at = now_iso amb,
                  api_key_regen_at = None\<rparr>"] assms(1)
  show ?thesis
    by (auto simp: register_user_def Let_def split: sum.splits)
qed

lemma distinct_map_update:
  assumes "distinct (map api_key us)"
    and "\<forall>u \<in> set us. user_id u \<noteq> uid \<longrightarrow> api_key u \<noteq> k"
    and "distinct (map user_id us)"
  shows "distinct (map api_key
           (map (\<lambda>u. if user_id u = uid then u\<lparr>api_key := k, api_key_regen_at := Some t\<rparr> else u) us))"
  using assms
proof (induction us)
  case Nil
  then show ?case by simp
next
  case (Cons a us)
  then show ?case by (auto simp: image_iff) (metis+)?
qed

lemma db_inv_update_api_key:
  assumes "db_inv s" "k \<noteq> []" "update_api_key s uid k t = Inr s'"
  shows "db_inv s'"
proof -
  let ?f = "\<lambda>u. if user_id u = uid then u\<lparr>api_key := k, api_key_regen_at := Some t\<rparr> else u"
  from assms(3) have free: "\<forall>u \<in> set (users s). user_id u \<noteq> uid \<longrightarrow> api_key u \<noteq> k"
    and s': "s' = s\<lparr>users := map ?f (users s)\<rparr>"
    by (auto simp: update_api_key_def split: if_splits)
  have ids: "map user_id (map ?f us) = map user_id us"
    and ems: "map email (map ?f us) = map email us" for us
    by (induction us) auto
  have us': "users s' = map ?f (users s)"
    by (simp add: s')
  have u1: "distinct (map user_id (users s'))" and u2: "distinct (map email (users s'))"
    using assms(1) by (simp_all only: us' ids ems db_inv_def)
  have u3: "distinct (map api_key (users s'))"
    unfolding us' using assms(1) free by (intro distinct_map_update) (auto simp: db_inv_def)
  have u4: "\<forall>u \<in> set (users s'). api_key u \<noteq> []"
    using assms(1,2) by (auto simp: db_inv_def us')
  have e: "expenses s' = expenses s" "expenses_seq s' = expenses_seq s"
    by (simp_all add: s')
  from assms(1) u1 u2 u3 u4 show ?thesis
    by (simp add: db_inv_def e)
qed

lemma db_inv_regenerate_api_key:
  assumes "db_inv s" "ambient_ok amb"
  shows "db_inv (snd (regenerate_api_key hash_password amb s em password))"
proof -
  have "token_urlsafe_32 amb \<noteq> []"
    using assms(2) by (auto simp: ambient_ok_def)
  with assms(1) show ?thesis
    by (auto simp: regenerate_api_key_def Let_def split: option.splits sum.splits
             dest: db_inv_update_api_key)
qed

lemma db_inv_add_expense:
  "db_inv s \<Longrightarrow> db_inv (snd (add_expense s date amount category key subcategory note))"
  by (auto simp: add_expense_def db_inv_def Let_def split: sum.splits)

lemma db_inv_delete_expense:
  "db_inv s \<Longrightarrow> db_inv (snd (delete_expense s expense_id key))"
  by (auto simp: delete_expense_def db_inv_def distinct_map_filter split: sum.splits)

lemma reachable_db_inv: "reachable s \<Longrightarrow> db_inv s"
  by (induction rule: reachable.induct)
     (simp_all add: db_inv_init db_inv_register_user db_inv_regenerate_api_key
        db_inv_add_expense db_inv_delete_expense)

lemma list_expenses_keeps_db: "snd (list_expenses s start_date end_date key) = s"
  by (simp add: list_expenses_def Let_def split: sum.splits)

lemma summarize_keeps_db: "snd (summarize s start_date end_date key category) = s"
  by (simp add: summarize_def Let_def split: sum.splits)

subsection \<open>The concrete run\<close>

lemma db_alice_eq:
  "register_user example_hash amb_a init_db ''Alice@Example.com'' ''Alice'' ''pw-a'' =
     (Inr (Registered key_a ''user_00112233aabbccdd'' ''Alice'' ''alice@example.com''),
      \<lparr>users = [alice_row], expenses = [], expenses_seq = 0\<rparr>)"
  by code_simp

lemma db_run_eq:
  "db_run = \<lparr>users = [alice_row, bob_row],
             expenses = [expense_1, expense_2, expense_3], expenses_seq = 3\<rparr>"
  by code_simp

lemma db_inv_db_run: "db_inv db_run"
  by code_simp

lemma authenticate_db_run_a: "authenticate db_run key_a = Inr ''user_00112233aabbccdd''"
  by code_simp

lemma authenticate_db_run_b: "authenticate db_run key_b = Inr ''user_8899aabbccddeeff''"
  by code_simp

lemma db_sums_eq:
  "db_sums = \<lparr>users = [alice_row],
              expenses = [sum_row 1 ''2024-01-01'' tenth_1 ''x'',
                          sum_row 2 ''2024-01-02'' tenth_2 ''x'',
                          sum_row 3 ''2024-01-03'' tenth_3 ''y''],
              expenses_seq = 3\<rparr>"
  by code_simp




lemma list_db_sums:
  "list_expenses db_sums ''2024-01-01'' ''2024-12-31'' key_a =
     (Inr (Listing 3 sums_listing), db_sums)"
  by code_simp

subsection \<open>Lower-casing\<close>

lemma py_lower_char_idem: "py_lower_char (py_lower_char c) = py_lower_char c"
  by (auto simp: py_lower_char_def Let_def)

lemma py_lower_idem: "py_lower (py_lower em) = py_lower em"
  by (simp add: py_lower_def py_lower_char_idem)

lemma sql_lower_py_lower_char: "sql_lower_char (py_lower_char c) = py_lower_char c"
  by (auto simp: py_lower_char_def sql_lower_char_def Let_def)

lemma sql_lower_py_lower: "sql_lower (py_lower em) = py_lower em"
  by (simp add: py_lower_def sql_lower_def sql_lower_py_lower_char)

section \<open>Claims\<close>

text \<open>
  C8. For an authenticated caller and \<open>start_date\<close> greater than \<open>end_date\<close>,
  \<open>list_expenses\<close> succeeds with count 0 and no rows, and leaves the database as it was.
\<close>

theorem list_expenses_reversed_range:
  assumes "authenticate s key = Inr uid" and "end_date < start_date"
  shows "list_expenses s start_date end_date key = (Inr (Listing 0 []), s)"
proof -
  have "\<not> in_range uid start_date end_date e" for e
    using assms(2) by (auto simp: in_range_def)
  then have "filter (in_range uid start_date end_date) (expenses s) = []"
    by (simp add: filter_empty_conv)
  with assms(1) show ?thesis
    by (simp add: list_expenses_def sort_by_def)
qed

theorem list_expenses_reversed_range_witness:
  "authenticate db_run key_a = Inr ''user_00112233aabbccdd'' \<and>
   ''2024-01-01'' < ''2024-01-31'' \<and>
   list_expenses db_run ''2024-01-31'' ''2024-01-01'' key_a = (Inr (Listing 0 []), db_run)"
proof -
  have d: "''2024-01-01'' < ''2024-01-31''" by simp
  from list_expenses_reversed_range [OF authenticate_db_run_a d] authenticate_db_run_a d
  show ?thesis by simp
qed

lemma g_category_group_by:
  "g_category ` set (group_by_category rows) = e_category ` set rows"
  by (auto simp: group_by_category_def group_of_def set_sort_by image_iff)

subsection \<open>Sums that return\<close>

lemma dadd_not_NaN: "x \<noteq> NaN \<Longrightarrow> is_finite y \<Longrightarrow> dadd x y \<noteq> NaN"
  by (cases x; cases y) (auto simp: is_finite_def round_double_def Let_def)

lemma foldl_dadd_not_NaN:
  "acc \<noteq> NaN \<Longrightarrow> \<forall>x \<in> set xs. is_finite x \<Longrightarrow> foldl dadd acc xs \<noteq> NaN"
  by (induction xs arbitrary: acc) (simp_all add: dadd_not_NaN)

lemma sql_sum_finite: "\<forall>x \<in> set xs. is_finite x \<Longrightarrow> sql_sum xs \<noteq> None"
  using foldl_dadd_not_NaN [of "Finite 0" xs]
  by (auto simp: sql_sum_def split: double.splits)

lemma py_sum_from_no_None: "None \<notin> set xs \<Longrightarrow> \<exists>t. py_sum_from b acc xs = Inr t"
proof (induction xs arbitrary: b acc)
  case Nil
  then show ?case by simp
next
  case (Cons x xs)
  then show ?case by (cases x) simp_all
qed

lemma totals_of_finite_rows:
  assumes "\<forall>e \<in> set rows. is_finite (e_amount e)"
  shows "None \<notin> total_amount ` set (group_by_category rows)"
proof -
  have "sql_sum (map e_amount (filter (\<lambda>e. e_category e = c) rows)) \<noteq> None" for c
    using assms by (intro sql_sum_finite) auto
  then have "total_amount g \<noteq> None" if "g \<in> set (group_by_category rows)" for g
    using that by (auto simp: group_by_category_def group_of_def)
  then show ?thesis
    by (metis imageE)
qed

text \<open>
  C10. \<open>summarize\<close> with the empty string as category is \<open>summarize\<close> without a category:
  the same result on every database, key and range. For an authenticated caller the query
  yields one group for every category among the caller's rows in the range, so the rows
  whose category is empty are never returned on their own: the result is the summary with
  these groups, or, when the \<^verbatim>\<open>SUM\<close> of a group is \<^verbatim>\<open>NULL\<close>, the error that \<^verbatim>\<open>sum\<close>
  raises on it. It is the summary whenever the caller's amounts in the range are finite.
\<close>

theorem summarize_empty_category:
  "summarize s start_date end_date key (Some []) = summarize s start_date end_date key None \<and>
   (authenticate s key = Inr uid \<longrightarrow>
      (\<exists>summary.
         g_category ` set summary =
           e_category ` {e \<in> set (expenses s). in_range uid start_date end_date e} \<and>
         (case py_sum (map total_amount summary) of
            Inl m \<Rightarrow>
              summarize s start_date end_date key (Some []) =
                (Inr (Error (''Error: '' @ m)), s)
          | Inr t \<Rightarrow>
              summarize s start_date end_date key (Some []) =
                (Inr (Summary t summary), s)))) \<and>
   (authenticate s key = Inr uid \<and>
    (\<forall>e \<in> set (expenses s).
       in_range uid start_date end_date e \<longrightarrow> is_finite (e_amount e)) \<longrightarrow>
      (\<exists>total summary.
         summarize s start_date end_date key (Some []) = (Inr (Summary total summary), s) \<and>
         g_category ` set summary =
           e_category ` {e \<in> set (expenses s). in_range uid start_date end_date e}))"
proof (cases "authenticate s key")
  case (Inl e)
  then show ?thesis by (simp add: summarize_def)
next
  case (Inr u)
  let ?rows = "sort_by date_id_asc (filter (in_range u start_date end_date) (expenses s))"
  let ?summary = "sort_by total_desc (rev (group_by_category ?rows))"
  have same: "summarize s start_date end_date key (Some []) =
                summarize s start_date end_date key None"
    using Inr by (simp add: summarize_def truthy_def)
  have res: "summarize s start_date end_date key (Some []) =
               (case py_sum (map total_amount ?summary) of
                  Inl m \<Rightarrow> (Inr (Error (''Error: '' @ m)), s)
                | Inr t \<Rightarrow> (Inr (Summary t ?summary), s))"
    using Inr by (simp add: summarize_def truthy_def Let_def)
  have cats: "g_category ` set ?summary =
                e_category ` {e \<in> set (expenses s). in_range u start_date end_date e}"
    by (simp add: set_sort_by g_category_group_by)
  have general: "\<exists>summary.
         g_category ` set summary =
           e_category ` {e \<in> set (expenses s). in_range u start_date end_date e} \<and>
         (case py_sum (map total_amount summary) of
            Inl m \<Rightarrow>
              summarize s start_date end_date key (Some []) =
                (Inr (Error (''Error: '' @ m)), s)
          | Inr t \<Rightarrow>
              summarize s start_date end_date key (Some []) =
                (Inr (Summary t summary), s))"
    using cats res by (intro exI [of _ ?summary]) (simp split: sum.splits)
  have finite: "\<exists>total summary.
         summarize s start_date end_date key (Some []) = (Inr (Summary total summary), s) \<and>
         g_category ` set summary =
           e_category ` {e \<in> set (expenses s). in_range u start_date end_date e}"
    if fin: "\<forall>e \<in> set (expenses s).
               in_range u start_date end_date e \<longrightarrow> is_finite (e_amount e)"
  proof -
    have "\<forall>e \<in> set ?rows. is_finite (e_amount e)"
      using fin by (simp add: set_sort_by)
    then have "None \<notin> total_amount ` set (group_by_category ?rows)"
      by (rule totals_of_finite_rows)
    then have "None \<notin> set (map total_amount ?summary)"
      by (simp add: set_sort_by)
    then obtain t where "py_sum (map total_amount ?summary) = Inr t"
      unfolding py_sum_def using py_sum_from_no_None by blast
    with res cats show ?thesis by simp
  qed
  show ?thesis
  proof (intro conjI impI)
    show "summarize s start_date end_date key (Some []) =
            summarize s start_date end_date key None"
      by (rule same)
  next
    assume "authenticate s key = Inr uid"
    with Inr have "u = uid" by simp
    with general show "\<exists>summary.
         g_category ` set summary =
           e_category ` {e \<in> set (expenses s). in_range uid start_date end_date e} \<and>
         (case py_sum (map total_amount summary) of
            Inl m \<Rightarrow>
              summarize s start_date end_date key (Some []) =
                (Inr (Error (''Error: '' @ m)), s)
          | Inr t \<Rightarrow>
              summarize s start_date end_date key (Some []) =
                (Inr (Summary t summary), s))"
      by simp
  next
    assume a: "authenticate s key = Inr uid \<and>
               (\<forall>e \<in> set (expenses s).
                  in_range uid start_date end_date e \<longrightarrow> is_finite (e_amount e))"
    with Inr have "u = uid" by simp
    with a finite show "\<exists>total summary.
         summarize s start_date end_date key (Some []) = (Inr (Summary total summary), s) \<and>
         g_category ` set summary =
           e_category ` {e \<in> set (expenses s). in_range uid start_date end_date e}"
      by simp
  qed
qed

theorem summarize_empty_category_witness:
  "authenticate db_run key_a = Inr ''user_00112233aabbccdd'' \<and>
   summarize db_run ''2024-01-01'' ''2024-01-31'' key_a (Some []) =
     summarize db_run ''2024-01-01'' ''2024-01-31'' key_a None \<and>
   (\<exists>total summary.
      summarize db_run ''2024-01-01'' ''2024-01-31'' key_a (Some []) =
        (Inr (Summary total summary), db_run) \<and>
      g_category ` set summary =
        e_category ` {e \<in> set (expenses db_run).
                       in_range ''user_00112233aabbccdd'' ''2024-01-01'' ''2024-01-31'' e})"
proof -
  have fin: "\<forall>e \<in> set (expenses db_run).
               in_range ''user_00112233aabbccdd'' ''2024-01-01'' ''2024-01-31'' e \<longrightarrow>
               is_finite (e_amount e)"
    by (simp add: db_run_eq expense_1_def expense_2_def expense_3_def is_finite_def)
  from summarize_empty_category
         [of db_run "''2024-01-01''" "''2024-01-31''" key_a "''user_00112233aabbccdd''"]
       authenticate_db_run_a fin
  show ?thesis by blast
qed

text \<open>
  C9. When \<open>register_user\<close> succeeds, the email in its response and the email of the row it
  appends to \<open>users\<close> are both \<open>py_lower\<close> of the email supplied (Python's
  \<^verbatim>\<open>email.lower()\<close>), which lower-casing leaves unchanged.
\<close>

theorem register_user_lowercases_email:
  assumes "register_user hash_password amb s em nm password =
             (Inr (Registered k uid nm' em'), s')"
  shows "em' = py_lower em \<and> py_lower em' = em' \<and>
         (\<exists>row. users s' = users s @ [row] \<and> user_id row = uid \<and> api_key row = k \<and>
                email row = py_lower em)"
  using assms
  by (auto simp: register_user_def insert_user_def Let_def py_lower_idem
           split: if_splits sum.splits)

theorem register_user_lowercases_email_witness:
  "register_user example_hash amb_a init_db ''Alice@Example.com'' ''Alice'' ''pw-a'' =
     (Inr (Registered key_a ''user_00112233aabbccdd'' ''Alice'' ''alice@example.com''),
      \<lparr>users = [alice_row], expenses = [], expenses_seq = 0\<rparr>) \<and>
   ''alice@example.com'' = py_lower ''Alice@Example.com'' \<and>
   (\<exists>row. users \<lparr>users = [alice_row], expenses = [], expenses_seq = 0\<rparr> =
             users init_db @ [row] \<and>
          user_id row = ''user_00112233aabbccdd'' \<and> api_key row = key_a \<and>
          email row = py_lower ''Alice@Example.com'')"
  using register_user_lowercases_email [OF db_alice_eq] db_alice_eq
  by simp

text \<open>
  C1. Tenant isolation. In a database that satisfies the constraints of the schema, let
  \<open>a\<close> be an expense row and \<open>other_key\<close> a key that authenticates as an account other
  than the owner of \<open>a\<close>. Then, for every date range, \<open>list_expenses\<close> under
  \<open>other_key\<close> returns no row carrying the id of \<open>a\<close>, and \<open>delete_expense\<close> under
  \<open>other_key\<close> on the id of \<open>a\<close> answers "Expense not found or not yours." and leaves
  the database, and so \<open>a\<close>, as it was.
\<close>

theorem tenant_isolation:
  assumes "db_inv s" and "a \<in> set (expenses s)"
    and "authenticate s other_key = Inr b" and "e_user_id a \<noteq> b"
  shows "(\<exists>rows. list_expenses s start_date end_date other_key =
                   (Inr (Listing (length rows) rows), s) \<and>
                 e_id a \<notin> r_id ` set rows \<and> listed_of a \<notin> set rows) \<and>
         delete_expense s (e_id a) other_key =
           (Inr (Error ''Expense not found or not yours.''), s) \<and>
         a \<in> set (expenses (snd (delete_expense s (e_id a) other_key)))"
proof -
  have ids: "distinct (map e_id (expenses s))"
    and bound: "0 < e_id a" "e_id a \<le> max_rowid"
    using assms(1,2) by (auto simp: db_inv_def)
  have other: "e_user_id e \<noteq> b" if "e \<in> set (expenses s)" "e_id e = e_id a" for e
    using distinct_map_eq [OF ids that(1) assms(2) that(2)] assms(4) by simp
  let ?rows = "map listed_of
                 (sort_by date_id_desc (filter (in_range b start_date end_date) (expenses s)))"
  have "e_id a \<notin> r_id ` set ?rows"
  proof
    assume "e_id a \<in> r_id ` set ?rows"
    then obtain e where e: "e \<in> set (expenses s)" "in_range b start_date end_date e"
      and "e_id e = e_id a"
      by (auto simp: set_sort_by listed_of_def)
    with other [of e] show False
      by (simp add: in_range_def)
  qed
  moreover from this have "listed_of a \<notin> set ?rows"
    by (force simp: listed_of_def)
  moreover have "list_expenses s start_date end_date other_key =
                   (Inr (Listing (length ?rows) ?rows), s)"
    using assms(3) by (simp add: list_expenses_def Let_def)
  moreover have "delete_expense s (e_id a) other_key =
                   (Inr (Error ''Expense not found or not yours.''), s)"
    using assms(3) bound other by (auto simp: delete_expense_def)
  ultimately show ?thesis
    using assms(2) by (simp del: length_map)
qed

theorem tenant_isolation_witness:
  "db_inv db_run \<and> expense_1 \<in> set (expenses db_run) \<and>
   authenticate db_run key_b = Inr ''user_8899aabbccddeeff'' \<and>
   e_user_id expense_1 \<noteq> ''user_8899aabbccddeeff'' \<and>
   (\<exists>rows. list_expenses db_run ''2024-01-01'' ''2024-01-31'' key_b =
             (Inr (Listing (length rows) rows), db_run) \<and>
           e_id expense_1 \<notin> r_id ` set rows \<and> listed_of expense_1 \<notin> set rows) \<and>
   delete_expense db_run (e_id expense_1) key_b =
     (Inr (Error ''Expense not found or not yours.''), db_run) \<and>
   expense_1 \<in> set (expenses (snd (delete_expense db_run (e_id expense_1) key_b)))"
proof -
  have m: "expense_1 \<in> set (expenses db_run)"
    by (simp add: db_run_eq)
  have o: "e_user_id expense_1 \<noteq> ''user_8899aabbccddeeff''"
    by (simp add: expense_1_def)
  from tenant_isolation [OF db_inv_db_run m authenticate_db_run_b o,
         of "''2024-01-01''" "''2024-01-31''"]
       db_inv_db_run m authenticate_db_run_b o
  show ?thesis by blast
qed

lemma distinct_map_sort_by:
  "distinct (map f xs) \<Longrightarrow> distinct (map f (sort_by le xs))"
proof -
  have "mset (map f (sort_by le xs)) = mset (map f xs)"
    by (simp add: mset_sort_by)
  then show "distinct (map f xs) \<Longrightarrow> distinct (map f (sort_by le xs))"
    by (metis mset_eq_imp_distinct_iff)
qed

text \<open>
  C7. For an authenticated caller, in a database that satisfies the constraints of the
  schema, \<open>list_expenses\<close> returns, with their number as count, exactly the caller's rows
  whose date lies between \<open>start_date\<close> and \<open>end_date\<close> inclusive (as a multiset: each such
  row once, and nothing else), later dates first and, among equal dates, larger ids first.
\<close>

theorem list_expenses_range_sorted:
  assumes "db_inv s" and "authenticate s key = Inr uid"
  shows "\<exists>rows.
           list_expenses s start_date end_date key = (Inr (Listing (length rows) rows), s) \<and>
           mset rows =
             image_mset listed_of
               (filter_mset (\<lambda>e. e_user_id e = uid \<and> start_date \<le> e_date e \<and> e_date e \<le> end_date)
                  (mset (expenses s))) \<and>
           sorted_wrt (\<lambda>r r'. r_date r' < r_date r \<or> (r_date r = r_date r' \<and> r_id r' < r_id r))
             rows"
proof -
  let ?sel = "filter (in_range uid start_date end_date) (expenses s)"
  let ?xs = "sort_by date_id_desc ?sel"
  let ?rows = "map listed_of ?xs"
  have res: "list_expenses s start_date end_date key = (Inr (Listing (length ?rows) ?rows), s)"
    using assms(2) by (simp add: list_expenses_def Let_def)
  have "in_range uid start_date end_date =
          (\<lambda>e. e_user_id e = uid \<and> start_date \<le> e_date e \<and> e_date e \<le> end_date)"
    by (auto simp: in_range_def fun_eq_iff)
  then have content: "mset ?rows =
      image_mset listed_of
        (filter_mset (\<lambda>e. e_user_id e = uid \<and> start_date \<le> e_date e \<and> e_date e \<le> end_date)
           (mset (expenses s)))"
    by (simp add: mset_sort_by)
  have "distinct (map e_id (expenses s))"
    using assms(1) by (simp add: db_inv_def)
  then have "distinct (map e_id ?xs)"
    by (intro distinct_map_sort_by distinct_map_filter)
  moreover have "sorted_wrt date_id_desc ?xs"
    by (rule sorted_sort_by) (rule date_id_desc_total, rule date_id_desc_trans)
  ultimately have "sorted_wrt (\<lambda>a b. date_id_desc a b \<and> e_id a \<noteq> e_id b) ?xs"
    by (rule sorted_wrt_distinct_key [rotated])
  then have "sorted_wrt (\<lambda>a b. e_date b < e_date a \<or> (e_date a = e_date b \<and> e_id b < e_id a)) ?xs"
    by (rule sorted_wrt_mono_rel [rotated]) (auto simp: date_id_desc_def)
  then have order: "sorted_wrt
      (\<lambda>r r'. r_date r' < r_date r \<or> (r_date r = r_date r' \<and> r_id r' < r_id r)) ?rows"
    by (simp add: sorted_wrt_map listed_of_def)
  from res content order show ?thesis by blast
qed

theorem list_expenses_range_sorted_witness:
  "db_inv db_run \<and> authenticate db_run key_a = Inr ''user_00112233aabbccdd'' \<and>
   list_expenses db_run ''2024-01-01'' ''2024-01-31'' key_a =
     (Inr (Listing 2 [listed_of expense_2, listed_of expense_1]), db_run) \<and>
   (\<exists>rows.
      list_expenses db_run ''2024-01-01'' ''2024-01-31'' key_a =
        (Inr (Listing (length rows) rows), db_run) \<and>
      mset rows =
        image_mset listed_of
          (filter_mset (\<lambda>e. e_user_id e = ''user_00112233aabbccdd'' \<and>
                             ''2024-01-01'' \<le> e_date e \<and> e_date e \<le> ''2024-01-31'')
             (mset (expenses db_run))) \<and>
      sorted_wrt (\<lambda>r r'. r_date r' < r_date r \<or> (r_date r = r_date r' \<and> r_id r' < r_id r))
        rows)"
proof -
  have "list_expenses db_run ''2024-01-01'' ''2024-01-31'' key_a =
          (Inr (Listing 2 [listed_of expense_2, listed_of expense_1]), db_run)"
    by code_simp
  with list_expenses_range_sorted [OF db_inv_db_run authenticate_db_run_a,
         of "''2024-01-01''" "''2024-01-31''"]
       db_inv_db_run authenticate_db_run_a
  show ?thesis by simp
qed

text \<open>
  In a database that satisfies the constraints of the schema, the stored API key of every
  account authenticates as that account. When \<open>regenerate_api_key\<close> succeeds for the
  account, with a token of the length \<^verbatim>\<open>token_urlsafe(32)\<close> returns that is not the key
  being replaced, then afterwards the old key is refused as "Invalid API key" and the
  returned key authenticates as the same account.
\<close>

lemma authenticate_current_key_and_rotation:
  assumes "db_inv s" and "u \<in> set (users s)"
  shows "authenticate s (api_key u) = Inr (user_id u) \<and>
         (\<forall>hash_password amb em password new_key s'.
            regenerate_api_key hash_password amb s em password =
              (Inr (Regenerated new_key (user_id u)), s') \<and>
            ambient_ok amb \<and> new_key \<noteq> api_key u \<longrightarrow>
              authenticate s' (api_key u) = Inl (ValueError ''Invalid API key'') \<and>
              authenticate s' new_key = Inr (user_id u))"
proof -
  have keys: "distinct (map api_key (users s))" and ids: "distinct (map user_id (users s))"
    and nonempty: "api_key u \<noteq> []"
    using assms by (auto simp: db_inv_def)
  have current: "authenticate s (api_key u) = Inr (user_id u)"
    using keys assms(2) nonempty by (rule authenticate_row)
  have rotated: "authenticate s' (api_key u) = Inl (ValueError ''Invalid API key'') \<and>
                 authenticate s' new_key = Inr (user_id u)"
    if reg: "regenerate_api_key hash_password amb s em password =
               (Inr (Regenerated new_key (user_id u)), s')"
      and amb: "ambient_ok amb" and fresh: "new_key \<noteq> api_key u"
    for hash_password amb em password new_key s'
  proof -
    let ?f = "\<lambda>x. if user_id x = user_id u
                   then x\<lparr>api_key := new_key, api_key_regen_at := Some (now_iso amb)\<rparr> else x"
    from reg have upd: "update_api_key s (user_id u) new_key (now_iso amb) = Inr s'"
      and nk: "new_key = token_urlsafe_32 amb"
      by (auto simp: regenerate_api_key_def Let_def split: option.splits if_splits sum.splits)
    from upd have free: "\<forall>x \<in> set (users s). user_id x \<noteq> user_id u \<longrightarrow> api_key x \<noteq> new_key"
      and us': "users s' = map ?f (users s)"
      by (auto simp: update_api_key_def split: if_splits)
    have ne: "new_key \<noteq> []"
      using amb nk by (auto simp: ambient_ok_def)
    have "api_key u \<notin> api_key ` set (users s')"
    proof
      assume "api_key u \<in> api_key ` set (users s')"
      then obtain x where x: "x \<in> set (users s)" and k: "api_key (?f x) = api_key u"
        by (auto simp: us')
      show False
      proof (cases "user_id x = user_id u")
        case True
        with k fresh show False by simp
      next
        case False
        with k have "api_key x = api_key u" by simp
        with keys x assms(2) have "x = u" by (rule distinct_map_eq)
        with False show False by simp
      qed
    qed
    with nonempty have old: "authenticate s' (api_key u) = Inl (ValueError ''Invalid API key'')"
      by (rule authenticate_unknown)
    have "?f u \<in> set (users s')"
      using assms(2) by (simp add: us')
    then obtain y where y: "find (\<lambda>x. api_key x = new_key) (users s') = Some y"
      using find_ex [of "?f u" "users s'" "\<lambda>x. api_key x = new_key"] by auto
    then have "api_key y = new_key" and "y \<in> set (users s')"
      by (auto dest: find_SomeD)
    then obtain x where "x \<in> set (users s)" and "y = ?f x"
      by (auto simp: us')
    with free \<open>api_key y = new_key\<close> have "user_id y = user_id u"
      by (cases "user_id x = user_id u") auto
    with y ne have "authenticate s' new_key = Inr (user_id u)"
      by (simp add: authenticate_def)
    with old show ?thesis by simp
  qed
  from current rotated show ?thesis by blast
qed

lemma rotate_alice:
  "regenerate_api_key example_hash amb_c db_run ''ALICE@example.com'' ''pw-a'' =
     (Inr (Regenerated key_c (user_id alice_row)),
      db_run\<lparr>users := [alice_row\<lparr>api_key := key_c,
                                   api_key_regen_at := Some ''2024-02-01T09:00:00''\<rparr>,
                        bob_row]\<rparr>)"
  by code_simp



subsection \<open>Who raises\<close>

lemma register_user_returns: "\<exists>r. fst (register_user hash_password amb s em nm password) = Inr r"
  by (simp add: register_user_def Let_def split: sum.splits)

lemma regenerate_api_key_returns:
  "\<exists>r. fst (regenerate_api_key hash_password amb s em password) = Inr r"
  by (simp add: regenerate_api_key_def Let_def split: option.splits sum.splits)

lemma authenticate_cases:
  "(key = [] \<longrightarrow> authenticate s key = Inl (ValueError ''API key is required'')) \<and>
   (key \<noteq> [] \<and> key \<notin> api_key ` set (users s) \<longrightarrow>
      authenticate s key = Inl (ValueError ''Invalid API key'')) \<and>
   (key \<noteq> [] \<and> key \<in> api_key ` set (users s) \<longrightarrow> (\<exists>uid. authenticate s key = Inr uid))"
proof -
  have "\<exists>uid. authenticate s key = Inr uid" if "key \<noteq> []" "key \<in> api_key ` set (users s)"
  proof -
    from that(2) obtain u where "u \<in> set (users s)" "api_key u = key" by auto
    then obtain y where "find (\<lambda>u. api_key u = key) (users s) = Some y"
      using find_ex [of u "users s" "\<lambda>u. api_key u = key"] by auto
    with that(1) show ?thesis by (simp add: authenticate_def)
  qed
  then show ?thesis
    by (auto simp: authenticate_unknown) (simp add: authenticate_def)
qed

text \<open>
  C4, as the code has it. \<open>register_user\<close> and \<open>regenerate_api_key\<close> return a dictionary
  on every input. \<open>add_expense\<close>, \<open>list_expenses\<close>, \<open>summarize\<close> and \<open>delete_expense\<close>
  call \<open>authenticate\<close> outside their \<^verbatim>\<open>try\<close>: with an empty key they raise
  \<open>ValueError ''API key is required''\<close>, with a key no account carries they raise
  \<open>ValueError ''Invalid API key''\<close>, in both cases leaving the database as it was, and
  with the key of an account they return a dictionary.
\<close>

theorem tools_raise_only_from_authenticate:
  "(\<exists>r. fst (register_user hash_password amb s em nm password) = Inr r) \<and>
   (\<exists>r. fst (regenerate_api_key hash_password amb s em password) = Inr r) \<and>
   (key = [] \<longrightarrow> authenticate s key = Inl (ValueError ''API key is required'')) \<and>
   (key \<noteq> [] \<and> key \<notin> api_key ` set (users s) \<longrightarrow>
      authenticate s key = Inl (ValueError ''Invalid API key'')) \<and>
   (key \<noteq> [] \<and> key \<in> api_key ` set (users s) \<longrightarrow> (\<exists>uid. authenticate s key = Inr uid)) \<and>
   (\<forall>e. authenticate s key = Inl e \<longrightarrow>
      add_expense s date amount category key subcategory note = (Inl e, s) \<and>
      list_expenses s start_date end_date key = (Inl e, s) \<and>
      summarize s start_date end_date key filter_category = (Inl e, s) \<and>
      delete_expense s expense_id key = (Inl e, s)) \<and>
   (\<forall>uid. authenticate s key = Inr uid \<longrightarrow>
      (\<exists>r. fst (add_expense s date amount category key subcategory note) = Inr r) \<and>
      (\<exists>r. fst (list_expenses s start_date end_date key) = Inr r) \<and>
      (\<exists>r. fst (summarize s start_date end_date key filter_category) = Inr r) \<and>
      (\<exists>r. fst (delete_expense s expense_id key) = Inr r))"
proof -
  have raised: "add_expense s date amount category key subcategory note = (Inl e, s) \<and>
      list_expenses s start_date end_date key = (Inl e, s) \<and>
      summarize s start_date end_date key filter_category = (Inl e, s) \<and>
      delete_expense s expense_id key = (Inl e, s)" if "authenticate s key = Inl e" for e
    using that by (simp add: add_expense_def list_expenses_def summarize_def delete_expense_def)
  have returned: "(\<exists>r. fst (add_expense s date amount category key subcategory note) = Inr r) \<and>
      (\<exists>r. fst (list_expenses s start_date end_date key) = Inr r) \<and>
      (\<exists>r. fst (summarize s start_date end_date key filter_category) = Inr r) \<and>
      (\<exists>r. fst (delete_expense s expense_id key) = Inr r)" if "authenticate s key = Inr uid" for uid
    using that
    by (simp add: add_expense_def list_expenses_def summarize_def delete_expense_def Let_def
             split: sum.splits)
  from raised returned register_user_returns regenerate_api_key_returns authenticate_cases [of key s]
  show ?thesis by blast
qed

theorem tools_raise_only_from_authenticate_witness:
  "[] \<notin> api_key ` set (users db_run) \<and>
   authenticate db_run [] = Inl (ValueError ''API key is required'') \<and>
   list_expenses db_run ''2024-01-01'' ''2024-01-31'' [] =
     (Inl (ValueError ''API key is required''), db_run) \<and>
   ''no-such-key'' \<noteq> [] \<and> ''no-such-key'' \<notin> api_key ` set (users db_run) \<and>
   authenticate db_run ''no-such-key'' = Inl (ValueError ''Invalid API key'') \<and>
   delete_expense db_run 1 ''no-such-key'' = (Inl (ValueError ''Invalid API key''), db_run) \<and>
   key_a \<noteq> [] \<and> key_a \<in> api_key ` set (users db_run) \<and>
   authenticate db_run key_a = Inr ''user_00112233aabbccdd'' \<and>
   (\<exists>r. fst (summarize db_run ''2024-01-01'' ''2024-01-31'' key_a None) = Inr r) \<and>
   (\<exists>r. fst (register_user example_hash amb_c db_run ''carol@example.com'' ''Carol'' ''pw-c'')
          = Inr r)"
proof -
  have k0: "[] \<notin> api_key ` set (users db_run)"
    and k1: "''no-such-key'' \<noteq> [] \<and> ''no-such-key'' \<notin> api_key ` set (users db_run)"
    and k2: "key_a \<noteq> [] \<and> key_a \<in> api_key ` set (users db_run)"
    by code_simp+
  note t = tools_raise_only_from_authenticate
             [of example_hash amb_c db_run "''carol@example.com''" "''Carol''" "''pw-c''" _
                 "''2024-01-05''" "Finite 1" "''Other''" "[]" "[]" "''2024-01-01''" "''2024-01-31''" None 1]
  from t [of "[]"] t [of "''no-such-key''"] t [of key_a] k0 k1 k2 authenticate_db_run_a
  show ?thesis by metis
qed

theorem add_expense_empty_key_counterexample:
  "add_expense init_db ''2024-01-05'' (Finite 45.5) ''Food & Dining'' [] [] [] =
     (Inl (ValueError ''API key is required''), init_db)"
  by code_simp

subsection \<open>The email check\<close>

lemma split_on_not_Nil: "split_on sep s \<noteq> []"
  by (induction s) (auto split: list.splits)

lemma split_on_no_sep: "sep \<notin> set s \<Longrightarrow> split_on sep s = [s]"
  by (induction s) auto

lemma spec_address_shape_format_ok:
  assumes "spec_address_shape em"
  shows "email_format_ok em"
proof -
  from assms obtain l d where sp: "split_on CHR ''@'' em = [l, d]" and dot: "CHR ''.'' \<in> set d"
    by (auto simp: spec_address_shape_def split: list.splits)
  have "CHR ''@'' \<in> set em"
    using sp split_on_no_sep [of "CHR ''@''" em] by auto
  with sp dot show ?thesis
    by (simp add: email_format_ok_def)
qed

text \<open>
  C6, as the code has it. \<open>register_user\<close> answers "Invalid email format.", and leaves the
  database as it was, exactly when the email has no \<^verbatim>\<open>@\<close> or no dot after its last
  \<^verbatim>\<open>@\<close> (\<open>email_format_ok\<close> fails). Every email of the address shape (one \<^verbatim>\<open>@\<close>, a
  non-empty local part before it, a dot in the domain after it) passes this check, so it is
  never refused for its format.
\<close>

theorem register_user_email_format:
  "(\<not> email_format_ok em \<longrightarrow>
      register_user hash_password amb s em nm password =
        (Inr (Error ''Invalid email format.''), s)) \<and>
   (email_format_ok em \<longrightarrow>
      fst (register_user hash_password amb s em nm password) \<noteq>
        Inr (Error ''Invalid email format.'')) \<and>
   (spec_address_shape em \<longrightarrow> email_format_ok em)"
  by (auto simp: register_user_def email_format_ok_def Let_def spec_address_shape_format_ok [unfolded email_format_ok_def]
           split: sum.splits)

theorem register_user_email_format_witness:
  "\<not> email_format_ok ''alice.example.com'' \<and>
   register_user example_hash amb_c db_run ''alice.example.com'' ''Alice'' ''pw'' =
     (Inr (Error ''Invalid email format.''), db_run) \<and>
   spec_address_shape ''carol@example.com'' \<and> email_format_ok ''carol@example.com'' \<and>
   fst (register_user example_hash amb_c db_run ''carol@example.com'' ''Carol'' ''pw-c'') \<noteq>
     Inr (Error ''Invalid email format.'')"
proof -
  have bad: "\<not> email_format_ok ''alice.example.com''"
    and good: "spec_address_shape ''carol@example.com''"
    by code_simp+
  from register_user_email_format [of "''alice.example.com''" example_hash amb_c db_run "''Alice''" "''pw''"]
       register_user_email_format [of "''carol@example.com''" example_hash amb_c db_run "''Carol''" "''pw-c''"]
       bad good
  show ?thesis by blast
qed

theorem register_user_empty_local_part_counterexample:
  "\<not> spec_address_shape ''@x.com'' \<and>
   fst (register_user example_hash amb_a init_db ''@x.com'' ''Nobody'' ''pw'') =
     Inr (Registered key_a ''user_00112233aabbccdd'' ''Nobody'' ''@x.com'') \<and>
   map email (users (snd (register_user example_hash amb_a init_db ''@x.com'' ''Nobody'' ''pw''))) =
     [''@x.com'']"
  by code_simp

subsection \<open>Registering an email again\<close>

lemma py_lower_char_eq_punct:
  "py_lower_char c = CHR ''@'' \<longleftrightarrow> c = CHR ''@''"
  "py_lower_char c = CHR ''.'' \<longleftrightarrow> c = CHR ''.''"
  by (auto simp: py_lower_char_def Let_def char_of_eq_iff take_bit_eq_mod)

lemma py_lower_char_eq_punct':
  "CHR ''@'' = py_lower_char c \<longleftrightarrow> c = CHR ''@''"
  "CHR ''.'' = py_lower_char c \<longleftrightarrow> c = CHR ''.''"
  using py_lower_char_eq_punct [of c] by (metis, metis)

lemma split_on_py_lower:
  "split_on CHR ''@'' (py_lower em) = map py_lower (split_on CHR ''@'' em)"
proof (induction em)
  case Nil
  then show ?case by (simp add: py_lower_def)
next
  case (Cons c cs)
  then show ?case
    using split_on_not_Nil [of "CHR ''@''" cs]
    by (auto simp: py_lower_def py_lower_char_eq_punct split: list.splits)
qed

lemma email_format_ok_py_lower: "email_format_ok (py_lower em) = email_format_ok em"
proof -
  have "(CHR ''@'' \<in> set (py_lower e)) = (CHR ''@'' \<in> set e)"
    and "(CHR ''.'' \<in> set (py_lower e)) = (CHR ''.'' \<in> set e)" for e
    by (induction e) (auto simp: py_lower_def py_lower_char_eq_punct py_lower_char_eq_punct')
  then show ?thesis
    by (simp add: email_format_ok_def split_on_py_lower last_map split_on_not_Nil)
qed

text \<open>
  After a successful registration, registering an email with the same \<open>py_lower\<close> form
  fails and leaves the database as it was. The answer is the "already registered" message
  when the second email has no capital letter outside ASCII (SQLite's \<^verbatim>\<open>LOWER\<close> then
  agrees with Python's \<^verbatim>\<open>lower()\<close> on it); otherwise the duplicate check misses the row
  and the \<^verbatim>\<open>UNIQUE\<close> constraint on \<^verbatim>\<open>email\<close> stops the insert.
\<close>

lemma register_user_again:
  assumes first: "register_user hash_password amb s em nm password =
                    (Inr (Registered k uid nm' em'), s')"
    and same: "py_lower em2 = py_lower em"
  shows "register_user hash_password2 amb2 s' em2 nm2 password2 =
           (if \<exists>u \<in> set (users s'). sql_lower (email u) = sql_lower em2
            then (Inr (Error (''This email is already registered. '' @
                              ''Use regenerate_api_key if you lost your key.'')), s')
            else (Inr (Error ''Registration error: UNIQUE constraint failed: users.email''), s'))"
    and "sql_lower em2 = py_lower em2 \<Longrightarrow>
           \<exists>u \<in> set (users s'). sql_lower (email u) = sql_lower em2"
proof -
  from first have ok: "email_format_ok em"
    by (auto simp: register_user_def email_format_ok_def split: if_splits)
  from first obtain row where row: "users s' = users s @ [row]" "email row = py_lower em"
    by (auto simp: register_user_def insert_user_def Let_def split: if_splits sum.splits)
  from ok same have ok2: "email_format_ok em2"
    by (metis email_format_ok_py_lower)
  have stored: "py_lower em2 \<in> set (map email (users s'))"
    using row same by simp
  show "register_user hash_password2 amb2 s' em2 nm2 password2 =
           (if \<exists>u \<in> set (users s'). sql_lower (email u) = sql_lower em2
            then (Inr (Error (''This email is already registered. '' @
                              ''Use regenerate_api_key if you lost your key.'')), s')
            else (Inr (Error ''Registration error: UNIQUE constraint failed: users.email''), s'))"
    using ok2 stored
    by (simp add: register_user_def email_format_ok_def insert_user_def Let_def)
  show "\<exists>u \<in> set (users s'). sql_lower (email u) = sql_lower em2"
    if "sql_lower em2 = py_lower em2"
    using that row same by (auto simp: sql_lower_py_lower)
qed

text \<open>
  C5, at an input where the code departs from it. An email whose first letter is U+00C9
  (capital E with acute accent), followed by \<^verbatim>\<open>lodie@example.com\<close>, is registered
  twice in the same spelling. The first call succeeds and stores the email with U+00E9 in
  front. In the second call the duplicate check does not find it; the insert violates the
  \<^verbatim>\<open>UNIQUE\<close> constraint, and the caller gets the generic "Registration error" result
  instead of the "already registered" one. The database is the same after the second call.
\<close>

theorem register_user_non_ascii_duplicate:
  "fst (register_user example_hash amb_a init_db
          (CHR 0xC9 # ''lodie@example.com'') ''Elodie'' ''pw'') =
     Inr (Registered key_a ''user_00112233aabbccdd'' ''Elodie''
            (CHR 0xE9 # ''lodie@example.com'')) \<and>
   register_user example_hash amb_b
     (snd (register_user example_hash amb_a init_db
             (CHR 0xC9 # ''lodie@example.com'') ''Elodie'' ''pw''))
     (CHR 0xC9 # ''lodie@example.com'') ''Elodie'' ''pw'' =
     (Inr (Error ''Registration error: UNIQUE constraint failed: users.email''),
      snd (register_user example_hash amb_a init_db
             (CHR 0xC9 # ''lodie@example.com'') ''Elodie'' ''pw''))"
  by code_simp

text \<open>So the second call does not answer with the "already registered" result.\<close>

theorem register_user_non_ascii_duplicate_witness:
  "fst (register_user example_hash amb_b
          (snd (register_user example_hash amb_a init_db
                  (CHR 0xC9 # ''lodie@example.com'') ''Elodie'' ''pw''))
          (CHR 0xC9 # ''lodie@example.com'') ''Elodie'' ''pw'') \<noteq>
     Inr (Error (''This email is already registered. '' @
                 ''Use regenerate_api_key if you lost your key.''))"
  using register_user_non_ascii_duplicate by simp

subsection \<open>The summary and the listing read the same rows\<close>












end
